theory Spec2Isabelle
  imports Main
begin

section \<open>Python string primitives\<close>

text \<open>
  The program works on Python \<open>str\<close> values.  A \<^typ>\<open>char\<close> stands for one code point
  in the range 0..255, so a \<^typ>\<open>string\<close> is a text whose code points are all below 256.
  On that range the character tables of the Python runtime are the ones written out below.
\<close>

definition LF :: char where "LF = CHR 0x0A"
definition CR :: char where "CR = CHR 0x0D"

text \<open>\<open>str.isspace\<close> on one character; it is also the class \<open>\s\<close> of \<open>re\<close>.\<close>

definition isspace :: "char \<Rightarrow> bool" where
  "isspace c = (c \<in> set [CHR 0x09, CHR 0x0A, CHR 0x0B, CHR 0x0C, CHR 0x0D, CHR 0x1C, CHR 0x1D,
                          CHR 0x1E, CHR 0x1F, CHR 0x20, CHR 0x85, CHR 0xA0])"

text \<open>The line boundaries of \<open>str.splitlines\<close> (besides the pair CR LF).\<close>

definition is_linebreak :: "char \<Rightarrow> bool" where
  "is_linebreak c = (c \<in> set [CHR 0x0A, CHR 0x0B, CHR 0x0C, CHR 0x0D, CHR 0x1C, CHR 0x1D,
                               CHR 0x1E, CHR 0x85])"

text \<open>The class \<open>\d\<close>, the class \<open>\w\<close> (\<open>str.isalnum\<close> or underscore) and the dot.\<close>

definition isdigit :: "char \<Rightarrow> bool" where
  "isdigit c = (c \<in> set ''0123456789'')"

definition isalnum :: "char \<Rightarrow> bool" where
  "isalnum c = (let n = (of_char c :: nat) in
     (48 \<le> n \<and> n \<le> 57) \<or> (65 \<le> n \<and> n \<le> 90) \<or> (97 \<le> n \<and> n \<le> 122) \<or>
     n \<in> set [170, 178, 179, 181, 185, 186, 188, 189, 190] \<or>
     (192 \<le> n \<and> n \<noteq> 215 \<and> n \<noteq> 247))"

definition wordchar :: "char \<Rightarrow> bool" where
  "wordchar c = (isalnum c \<or> c = CHR ''_'')"

definition dot :: "char \<Rightarrow> bool" where
  "dot c = (c \<noteq> LF)"

text \<open>\<open>str.lower\<close> on one character.\<close>

definition lower_char :: "char \<Rightarrow> char" where
  "lower_char c = (let n = (of_char c :: nat) in
     if (65 \<le> n \<and> n \<le> 90) \<or> (192 \<le> n \<and> n \<le> 222 \<and> n \<noteq> 215) then char_of (n + 32) else c)"

definition lower :: "string \<Rightarrow> string" where
  "lower s = map lower_char s"

definition lstrip :: "string \<Rightarrow> string" where
  "lstrip s = dropWhile isspace s"

definition rstrip :: "string \<Rightarrow> string" where
  "rstrip s = rev (dropWhile isspace (rev s))"

definition strip :: "string \<Rightarrow> string" where
  "strip s = lstrip (rstrip s)"

text \<open>\<open>s.rstrip(chars)\<close>: drop every trailing character that occurs in \<open>chars\<close>.\<close>

definition rstrip_chars :: "string \<Rightarrow> string \<Rightarrow> string" where
  "rstrip_chars chars s = rev (dropWhile (\<lambda>c. c \<in> set chars) (rev s))"

definition startswith :: "string \<Rightarrow> string \<Rightarrow> bool" where
  "startswith s p = (take (length p) s = p)"

definition endswith :: "string \<Rightarrow> string \<Rightarrow> bool" where
  "endswith s p = (length p \<le> length s \<and> drop (length s - length p) s = p)"

text \<open>\<open>needle in hay\<close> on strings.\<close>

fun contains :: "string \<Rightarrow> string \<Rightarrow> bool" where
  "contains needle [] = (needle = [])"
| "contains needle (c # cs) = (startswith (c # cs) needle \<or> contains needle cs)"

text \<open>\<open>s[1:-1]\<close>: the slice never fails; it is empty when \<open>s\<close> has fewer than three characters.\<close>

definition slice_1_m1 :: "string \<Rightarrow> string" where
  "slice_1_m1 s = butlast (tl s)"

text \<open>
  \<open>text.splitlines(True)\<close>: the lines with their endings kept.  The first argument is the
  line read so far.
\<close>

fun splitlines_from :: "string \<Rightarrow> string \<Rightarrow> string list" where
  "splitlines_from cur [] = (if cur = [] then [] else [cur])"
| "splitlines_from cur [c] = [cur @ [c]]"
| "splitlines_from cur (c # d # ds) =
     (if c = CR \<and> d = LF then (cur @ [c, d]) # splitlines_from [] ds
      else if is_linebreak c then (cur @ [c]) # splitlines_from [] (d # ds)
      else splitlines_from (cur @ [c]) (d # ds))"

definition splitlines_keep :: "string \<Rightarrow> string list" where
  "splitlines_keep text = splitlines_from [] text"

section \<open>The regular expressions of the program\<close>

text \<open>
  Every pattern of the program is a sequence of the atoms below: no quantifier is applied
  to anything but one character class.  \<open>rmatch\<close> is \<open>re.match\<close>: the atoms are matched
  from the start of the string, each atom offers its possible matches in the order the
  backtracking matcher tries them (greedy: longest first; lazy: shortest first), and the
  first way through wins.  The result lists the text matched by each atom, from which the
  groups are read.  The flag is \<open>re.IGNORECASE\<close>.
\<close>

datatype rx =
    Lit string
  | Alt "string list"
  | OneOf "char \<Rightarrow> bool"
  | Opt char
  | Star "char \<Rightarrow> bool"
  | Plus "char \<Rightarrow> bool"
  | PlusLazy "char \<Rightarrow> bool"
  | Dollar

definition lit_eq :: "bool \<Rightarrow> string \<Rightarrow> string \<Rightarrow> bool" where
  "lit_eq ic a b = (if ic then lower a = lower b else a = b)"

definition lit_cand :: "bool \<Rightarrow> string \<Rightarrow> string \<Rightarrow> (string \<times> string) list" where
  "lit_cand ic w s =
     (if length w \<le> length s \<and> lit_eq ic (take (length w) s) w
      then [(take (length w) s, drop (length w) s)] else [])"

definition cut :: "string \<Rightarrow> nat \<Rightarrow> string \<times> string" where
  "cut s k = (take k s, drop k s)"

fun candidates :: "bool \<Rightarrow> rx \<Rightarrow> string \<Rightarrow> (string \<times> string) list" where
  "candidates ic (Lit w) s = lit_cand ic w s"
| "candidates ic (Alt ws) s = concat (map (\<lambda>w. lit_cand ic w s) ws)"
| "candidates ic (OneOf P) s = (case s of c # cs \<Rightarrow> if P c then [([c], cs)] else [] | [] \<Rightarrow> [])"
| "candidates ic (Opt c) s = lit_cand ic [c] s @ [([], s)]"
| "candidates ic (Star P) s = map (cut s) (rev [0 ..< Suc (length (takeWhile P s))])"
| "candidates ic (Plus P) s = map (cut s) (rev [1 ..< Suc (length (takeWhile P s))])"
| "candidates ic (PlusLazy P) s = map (cut s) [1 ..< Suc (length (takeWhile P s))]"
| "candidates ic Dollar s = (if s = [] \<or> s = [LF] then [([], s)] else [])"

fun first_some :: "('a \<Rightarrow> 'b option) \<Rightarrow> 'a list \<Rightarrow> 'b option" where
  "first_some f [] = None"
| "first_some f (x # xs) = (case f x of Some y \<Rightarrow> Some y | None \<Rightarrow> first_some f xs)"

fun rmatch :: "bool \<Rightarrow> rx list \<Rightarrow> string \<Rightarrow> string list option" where
  "rmatch ic [] s = Some []"
| "rmatch ic (a # as) s =
     first_some (\<lambda>(m, r). map_option ((#) m) (rmatch ic as r)) (candidates ic a s)"

definition rmatches :: "bool \<Rightarrow> rx list \<Rightarrow> string \<Rightarrow> bool" where
  "rmatches ic p s = (rmatch ic p s \<noteq> None)"

text \<open>\<open>pattern.search\<close>: a match starting at some position of the string.\<close>

definition rsearch :: "bool \<Rightarrow> rx list \<Rightarrow> string \<Rightarrow> bool" where
  "rsearch ic p s = list_ex (\<lambda>k. rmatches ic p (drop k s)) [0 ..< Suc (length s)]"

text \<open>
  The compiled patterns.  All of them carry \<open>re.IGNORECASE\<close> and are given to \<open>rmatch\<close>
  with the flag set, except \<open>PS_T_DIGITS\<close> (the inline \<open>re.match(r'ps-t\d+', stripped)\<close>
  of \<open>process_orfix_block\<close>, which has no flag).  \<open>PS_T0_ASSIGN\<close> is the inline
  \<open>re.match(r'\s*ps-t0\s*=', l, re.IGNORECASE)\<close> of \<open>process_orfix_sections\<close>.
\<close>

definition BS :: char where "BS = CHR 0x5C"

definition SECTION_HEADER_RE :: "rx list" where
  "SECTION_HEADER_RE = [Star isspace, Lit ''['', PlusLazy dot, Lit '']'', Star isspace, Dollar]"

definition PS_T0_RE :: "rx list" where
  "PS_T0_RE = [Star isspace, Lit ''ps-t0'', Star isspace, Lit ''='', Star isspace, PlusLazy dot,
               Star isspace, Dollar]"

definition RUN_FACE_RE :: "rx list" where
  "RUN_FACE_RE = [Star isspace, Lit ''run'', Star isspace, Lit ''='', Star isspace,
                  Lit ''CommandList'', Star wordchar, Lit ''Face'', Star wordchar,
                  Star isspace, Dollar]"

definition ORFIX_PREFIX :: string where
  "ORFIX_PREFIX = ''CommandList'' @ [BS] @ ''global'' @ [BS] @ ''ORFix'' @ [BS]"

definition RUN_LINE_PATTERN :: "rx list" where
  "RUN_LINE_PATTERN = [Star isspace, Lit ''run'', Star isspace, Lit ''='', Star isspace,
                       Lit ORFIX_PREFIX, Alt [''NNFix'', ''ORFix'']]"

definition PS_T_DIGITS :: "rx list" where
  "PS_T_DIGITS = [Lit ''ps-t'', Plus isdigit]"

definition PS_T0_ASSIGN :: "rx list" where
  "PS_T0_ASSIGN = [Star isspace, Lit ''ps-t0'', Star isspace, Lit ''='']"

definition CL_OR_TO :: rx where
  "CL_OR_TO = Alt [''CommandList'', ''TextureOverride'']"

definition COMMANDLIST_EXCLUSIONS :: "rx list list" where
  "COMMANDLIST_EXCLUSIONS =
     [[Lit ''[CommandListCreditInfo]'', Dollar],
      [Lit ''[CommandListLoadA'', Opt (CHR ''2''), Lit '']'', Dollar],
      [Lit ''[CommandListLoadB'', Opt (CHR ''2''), Lit '']'', Dollar],
      [Lit ''[CommandListLoadC'', Opt (CHR ''2''), Lit '']'', Dollar],
      [Lit ''[CommandListLoadD'', Opt (CHR ''2''), Lit '']'', Dollar],
      [Lit ''[CommandListMenu]'', Dollar],
      [Lit ''[CommandListRandom'', OneOf (\<lambda>c. c \<in> set ''012345''), Opt (CHR ''D''), Lit '']'',
       Dollar],
      [Lit ''[CommandListSaveA'', Opt (CHR ''2''), Lit '']'', Dollar],
      [Lit ''[CommandListSaveB'', Opt (CHR ''2''), Lit '']'', Dollar],
      [Lit ''[CommandListSaveC'', Opt (CHR ''2''), Lit '']'', Dollar],
      [Lit ''[CommandListSaveD'', Opt (CHR ''2''), Lit '']'', Dollar]]"

definition AUTO_EXCLUDE_PATTERNS :: "rx list list" where
  "AUTO_EXCLUDE_PATTERNS =
     [[Lit ''['', Star dot, Lit ''IB]'', Dollar],
      [Lit ''['', CL_OR_TO, Star dot, Lit ''Position]'', Dollar],
      [Lit ''['', CL_OR_TO, Star dot, Lit ''Texcoord]'', Dollar],
      [Lit ''['', CL_OR_TO, Star dot, Lit ''Blend]'', Dollar],
      [Lit ''['', CL_OR_TO, Star dot, Lit ''Info]'', Dollar],
      [Lit ''['', CL_OR_TO, Star dot, Lit ''VertexLimitRaise]'', Dollar]]
     @ COMMANDLIST_EXCLUSIONS"

definition AUTO_MODE_EXCLUDE_PATTERNS :: "rx list list" where
  "AUTO_MODE_EXCLUDE_PATTERNS = [[Lit ''face''], [Lit ''limb'', Opt (CHR ''s'')]]"

section \<open>Section processing utilities\<close>

type_synonym ini_section = "string option \<times> string list"

text \<open>
  \<open>split_into_sections\<close>: the loop over the lines, with the list of sections built so far,
  the current header and the current lines as its state.  Group 1 of the header pattern is
  the text matched by its third atom.
\<close>

definition push_section :: "ini_section list \<Rightarrow> string option \<Rightarrow> string list \<Rightarrow> ini_section list" where
  "push_section sections current_header current_lines =
     (if current_lines \<noteq> [] \<or> current_header \<noteq> None
      then sections @ [(current_header, current_lines)] else sections)"

fun split_loop :: "string list \<Rightarrow> ini_section list \<Rightarrow> string option \<Rightarrow> string list \<Rightarrow> ini_section list" where
  "split_loop [] sections current_header current_lines =
     push_section sections current_header current_lines"
| "split_loop (line # lines) sections current_header current_lines =
     (case rmatch True SECTION_HEADER_RE line of
        Some g \<Rightarrow>
          split_loop lines (push_section sections current_header current_lines)
            (Some (strip (g ! 2))) [line]
      | None \<Rightarrow> split_loop lines sections current_header (current_lines @ [line]))"

definition split_into_sections :: "string \<Rightarrow> ini_section list" where
  "split_into_sections text = split_loop (splitlines_keep text) [] None []"

definition section_text :: "ini_section list \<Rightarrow> string" where
  "section_text sections = concat (concat (map snd sections))"


text \<open>
  A header is \<open>None\<close> or a string; \<open>if not header\<close> is true for \<open>None\<close> and for the empty
  string.  \<open>bracketed\<close> is the f-string \<open>f"[{header}]"\<close>, which prints \<open>None\<close> as the word.
\<close>

definition truthy :: "string option \<Rightarrow> bool" where
  "truthy header = (case header of None \<Rightarrow> False | Some h \<Rightarrow> h \<noteq> [])"

definition bracketed :: "string option \<Rightarrow> string" where
  "bracketed header = ''['' @ (case header of None \<Rightarrow> ''None'' | Some h \<Rightarrow> h) @ '']''"

definition is_face_section_by_header :: "string option \<Rightarrow> bool" where
  "is_face_section_by_header header =
     (if \<not> truthy header then False
      else let h = lower (the header) in
        if \<not> contains ''face'' h then False
        else if startswith h ''commandlist'' \<or> startswith h ''textureoverride'' then True
        else False)"

fun section_has_run_face :: "string list \<Rightarrow> bool" where
  "section_has_run_face [] = False"
| "section_has_run_face (line # lines) =
     (if rmatches True RUN_FACE_RE line then True else section_has_run_face lines)"

definition should_auto_exclude_section :: "string option \<Rightarrow> bool" where
  "should_auto_exclude_section header =
     (if \<not> truthy header then False
      else let full_header = bracketed header in
        list_ex (\<lambda>pat. rmatches True pat full_header) AUTO_EXCLUDE_PATTERNS)"

definition should_auto_mode_exclude :: "string option \<Rightarrow> bool" where
  "should_auto_mode_exclude header =
     (if \<not> truthy header then False
      else list_ex (\<lambda>pat. rsearch True pat (the header)) AUTO_MODE_EXCLUDE_PATTERNS)"

section \<open>FaceFix processing\<close>

text \<open>The change tuples: their tag, the section, and the data.\<close>

datatype change =
    FACE "string option" nat string string
  | ORFIX_REMOVE "string option" string
  | ORFIX_ADD "string option" string

text \<open>
  \<open>process_face_sections\<close>.  The inner loop runs over the lines of one section, the outer
  loop over the sections; both thread \<open>changed\<close>, \<open>out_lines\<close> and \<open>file_line_no\<close>.  The
  groups of \<open>PS_T0_RE\<close> are the texts matched by its atoms 0 (indent), 1 (the key),
  5 (the value) and 6 (trailing).  \<open>manual_excludes\<close> is the set after the default
  \<open>None\<close> has been replaced by the empty set; \<open>None in manual_excludes\<close> is false for a
  set of strings.
\<close>

definition line_ending :: "string \<Rightarrow> string" where
  "line_ending ln = (if endswith ln [CR, LF] then [CR, LF] else if endswith ln [LF] then [LF] else [])"

fun face_lines ::
  "bool \<Rightarrow> string option \<Rightarrow> string list \<Rightarrow> change list \<Rightarrow> string list \<Rightarrow> nat
     \<Rightarrow> change list \<times> string list \<times> nat" where
  "face_lines allowed header [] changed out_lines file_line_no = (changed, out_lines, file_line_no)"
| "face_lines allowed header (ln # lns) changed out_lines file_line_no =
     (case (if allowed then rmatch True PS_T0_RE ln else None) of
        Some g \<Rightarrow>
          (let indent = g ! 0; rhs = g ! 5; trailing = g ! 6;
               newline = line_ending ln;
               new_line = indent @ ''this = '' @ rhs @ trailing @ newline
           in face_lines allowed header lns
                (changed @ [FACE header (file_line_no + 1)
                              (rstrip_chars [CR, LF] ln) (rstrip_chars [CR, LF] new_line)])
                (out_lines @ [new_line]) (file_line_no + 1))
      | None \<Rightarrow> face_lines allowed header lns changed (out_lines @ [ln]) (file_line_no + 1))"

definition face_allowed :: "string set \<Rightarrow> string option \<Rightarrow> string list \<Rightarrow> bool" where
  "face_allowed manual_excludes header lines =
     (if truthy header \<and> bracketed header \<in> manual_excludes then False
      else is_face_section_by_header header \<or> section_has_run_face lines)"

fun face_sections ::
  "string set \<Rightarrow> ini_section list \<Rightarrow> change list \<Rightarrow> string list \<Rightarrow> nat
     \<Rightarrow> change list \<times> string list \<times> nat" where
  "face_sections manual_excludes [] changed out_lines file_line_no =
     (changed, out_lines, file_line_no)"
| "face_sections manual_excludes ((header, lines) # rest) changed out_lines file_line_no =
     (case face_lines (face_allowed manual_excludes header lines) header lines
             changed out_lines file_line_no of
        (changed', out_lines', file_line_no') \<Rightarrow>
          face_sections manual_excludes rest changed' out_lines' file_line_no')"

definition process_face_sections ::
  "ini_section list \<Rightarrow> bool \<Rightarrow> string set \<Rightarrow> change list \<times> string" where
  "process_face_sections sections auto_mode manual_excludes =
     (case face_sections manual_excludes sections [] [] 0 of
        (changed, out_lines, file_line_no) \<Rightarrow> (changed, concat out_lines))"

section \<open>ORFix processing\<close>

datatype error = IndexError | ReadFailure

text \<open>\<open>xs[i]\<close> raises IndexError out of range; \<open>xs.insert(i, x)\<close> appends when \<open>i\<close> is beyond the end.\<close>

definition getitem :: "'a list \<Rightarrow> nat \<Rightarrow> error + 'a" where
  "getitem xs i = (if i < length xs then Inr (xs ! i) else Inl IndexError)"

definition list_insert :: "'a list \<Rightarrow> nat \<Rightarrow> 'a \<Rightarrow> 'a list" where
  "list_insert xs i x = take i xs @ [x] @ drop i xs"

definition RUN_ORFIX :: string where
  "RUN_ORFIX = ''run = '' @ ORFIX_PREFIX @ ''ORFix'' @ [LF]"

definition RUN_NNFIX :: string where
  "RUN_NNFIX = ''run = '' @ ORFIX_PREFIX @ ''NNFix'' @ [LF]"

text \<open>First pass of \<open>process_orfix_block\<close>: copy the lines and find the last ps-t index.\<close>

fun first_pass :: "string list \<Rightarrow> string list \<Rightarrow> nat option \<Rightarrow> string list \<times> nat option" where
  "first_pass [] new_block last_ps_index = (new_block, last_ps_index)"
| "first_pass (line # rest) new_block last_ps_index =
     (let new_block' = new_block @ [line];
          stripped = lstrip line
      in first_pass rest new_block'
           (if rmatches False PS_T_DIGITS stripped then Some (length new_block' - 1)
            else last_ps_index))"

text \<open>Second pass: remove the run lines, recording each removal.\<close>

fun remove_pass ::
  "string option \<Rightarrow> string list \<Rightarrow> string list \<Rightarrow> change list \<Rightarrow> string list \<times> change list" where
  "remove_pass section_name [] temp_block changes = (temp_block, changes)"
| "remove_pass section_name (line # rest) temp_block changes =
     (if rmatches True RUN_LINE_PATTERN line
      then remove_pass section_name rest temp_block
             (changes @ [ORFIX_REMOVE section_name (strip line)])
      else remove_pass section_name rest (temp_block @ [line]) changes)"

text \<open>
  The test \<open>len(new_block) > last_ps_index + 1 and new_block[last_ps_index + 1].strip() ==
  correct_run.strip()\<close>: the index is read only when the first conjunct holds.
\<close>

definition next_is_correct :: "string list \<Rightarrow> nat \<Rightarrow> string \<Rightarrow> error + bool" where
  "next_is_correct new_block i correct_run =
     (if length new_block > i + 1
      then (case getitem new_block (i + 1) of
              Inl e \<Rightarrow> Inl e
            | Inr l \<Rightarrow> Inr (strip l = strip correct_run))
      else Inr False)"

definition process_orfix_block ::
  "string list \<Rightarrow> string option \<Rightarrow> error + (string list \<times> change list)" where
  "process_orfix_block block section_name =
     (if block = [] then Inr (block, [])
      else
        let has_normal = list_ex (contains ''NormalMap'') block in
        case first_pass block [] None of (new_block0, last_ps_index) \<Rightarrow>
        case remove_pass section_name new_block0 [] [] of (new_block, changes) \<Rightarrow>
        (case last_ps_index of
           None \<Rightarrow> Inr (new_block, changes)
         | Some i \<Rightarrow>
             if i < length new_block then
               (let correct_run = (if has_normal then RUN_ORFIX else RUN_NNFIX) in
                case next_is_correct new_block i correct_run of
                  Inl e \<Rightarrow> Inl e
                | Inr already \<Rightarrow>
                    if \<not> already
                    then Inr (list_insert new_block (i + 1) correct_run,
                              changes @ [ORFIX_ADD section_name (strip correct_run)])
                    else Inr (new_block, changes))
             else Inr (new_block, changes)))"

text \<open>
  \<open>process_orfix_sections\<close>.  The code that decides about a block and emits it stands twice
  in the source, in the loop and after it, with the same text; it is \<open>emit_block\<close> here.
\<close>

definition is_block_start :: "string \<Rightarrow> bool" where
  "is_block_start line =
     (let stripped = strip line
      in startswith stripped ''[CommandList'' \<or> startswith stripped ''[TextureOverride'')"

definition process_block :: "bool \<Rightarrow> string set \<Rightarrow> string option \<Rightarrow> string list \<Rightarrow> bool" where
  "process_block auto_mode manual_excludes current_section block_lines =
     (let contains_ps_t0 = list_ex (rmatches True PS_T0_ASSIGN) block_lines;
          inside_auto_excluded = should_auto_exclude_section current_section
      in if auto_mode
         then (let inside_mode_excluded = should_auto_mode_exclude current_section
               in \<not> inside_auto_excluded \<and> \<not> inside_mode_excluded \<and> contains_ps_t0)
         else (let inside_manual_excluded = (bracketed current_section \<in> manual_excludes)
               in \<not> inside_auto_excluded \<and> \<not> inside_manual_excluded \<and> contains_ps_t0))"

definition emit_block ::
  "bool \<Rightarrow> string set \<Rightarrow> string option \<Rightarrow> string list \<Rightarrow> error + (string list \<times> change list)" where
  "emit_block auto_mode manual_excludes current_section block_lines =
     (if process_block auto_mode manual_excludes current_section block_lines
      then process_orfix_block block_lines current_section
      else Inr (block_lines, []))"

record orfix_state =
  new_lines :: "string list"
  block_lines :: "string list"
  current_section :: "string option"
  all_changes :: "change list"

definition flush_block :: "bool \<Rightarrow> string set \<Rightarrow> orfix_state \<Rightarrow> error + orfix_state" where
  "flush_block auto_mode manual_excludes st =
     (if block_lines st \<noteq> []
      then (case emit_block auto_mode manual_excludes (current_section st) (block_lines st) of
              Inl e \<Rightarrow> Inl e
            | Inr (processed, changes) \<Rightarrow>
                Inr (st\<lparr>new_lines := new_lines st @ processed,
                        all_changes := all_changes st @ changes\<rparr>))
      else Inr st)"

fun orfix_loop :: "bool \<Rightarrow> string set \<Rightarrow> string list \<Rightarrow> orfix_state \<Rightarrow> error + orfix_state" where
  "orfix_loop auto_mode manual_excludes [] st = Inr st"
| "orfix_loop auto_mode manual_excludes (line # lines) st =
     (if is_block_start line
      then (case flush_block auto_mode manual_excludes st of
              Inl e \<Rightarrow> Inl e
            | Inr st' \<Rightarrow>
                orfix_loop auto_mode manual_excludes lines
                  (st'\<lparr>block_lines := [],
                       current_section := Some (slice_1_m1 (strip line)),
                       new_lines := new_lines st' @ [line]\<rparr>))
      else if truthy (current_section st)
      then orfix_loop auto_mode manual_excludes lines (st\<lparr>block_lines := block_lines st @ [line]\<rparr>)
      else orfix_loop auto_mode manual_excludes lines (st\<lparr>new_lines := new_lines st @ [line]\<rparr>))"

definition orfix_init :: orfix_state where
  "orfix_init = \<lparr>new_lines = [], block_lines = [], current_section = None, all_changes = []\<rparr>"

text \<open>The pass on the list of lines: the loop, then the final block.\<close>

definition orfix_lines ::
  "bool \<Rightarrow> string set \<Rightarrow> string list \<Rightarrow> error + (change list \<times> string list)" where
  "orfix_lines auto_mode manual_excludes lines =
     (case orfix_loop auto_mode manual_excludes lines orfix_init of
        Inl e \<Rightarrow> Inl e
      | Inr st \<Rightarrow>
          (case flush_block auto_mode manual_excludes st of
             Inl e \<Rightarrow> Inl e
           | Inr st' \<Rightarrow> Inr (all_changes st', new_lines st')))"

definition process_orfix_sections ::
  "string \<Rightarrow> bool \<Rightarrow> string set \<Rightarrow> error + (change list \<times> string)" where
  "process_orfix_sections text auto_mode manual_excludes =
     (case orfix_lines auto_mode manual_excludes (splitlines_keep text) of
        Inl e \<Rightarrow> Inl e
      | Inr (changes, out_lines) \<Rightarrow> Inr (changes, concat out_lines))"

section \<open>Combined processing\<close>

text \<open>
  \<open>process_file_combined\<close>, from the result of reading the file on: \<open>Inl\<close> when opening or
  decoding raised, \<open>Inr content\<close> otherwise.  Every exception ends in the handler, which
  returns no changes and the empty text.
\<close>

definition process_file_combined ::
  "error + string \<Rightarrow> bool \<Rightarrow> string set \<Rightarrow> bool \<Rightarrow> bool \<times> change list \<times> string" where
  "process_file_combined read_result auto_mode manual_excludes process_disabled =
     (case read_result of
        Inl e \<Rightarrow> (False, [], [])
      | Inr content \<Rightarrow>
          if contains ''DISABLED'' content \<and> \<not> process_disabled then (False, [], content)
          else
            let sections = split_into_sections content in
            case process_face_sections sections auto_mode manual_excludes of
              (face_changes, text_after_face) \<Rightarrow>
            (case process_orfix_sections text_after_face auto_mode manual_excludes of
               Inl e \<Rightarrow> (False, [], [])
             | Inr (orfix_changes, final_text) \<Rightarrow>
                 let changes = face_changes @ orfix_changes;
                     has_changes = (length changes > 0)
                 in (has_changes, changes, final_text)))"

section \<open>Auxiliary notions for the proofs\<close>

text \<open>
  \<open>shift\<close> puts lines and changes in front of those of a state; \<open>finish\<close> is the code
  after the loop of \<open>process_orfix_sections\<close>.
\<close>

definition shift :: "string list \<Rightarrow> change list \<Rightarrow> orfix_state \<Rightarrow> orfix_state" where
  "shift a b st = st\<lparr>new_lines := a @ new_lines st, all_changes := b @ all_changes st\<rparr>"

definition finish :: "bool \<Rightarrow> string set \<Rightarrow> orfix_state \<Rightarrow> error + (change list \<times> string list)" where
  "finish auto_mode ex st =
     (case flush_block auto_mode ex st of Inl e \<Rightarrow> Inl e
      | Inr st' \<Rightarrow> Inr (all_changes st', new_lines st'))"

section \<open>The splitter is lossless\<close>

lemma concat_splitlines_from: "concat (splitlines_from cur s) = cur @ s"
  by (induction cur s rule: splitlines_from.induct) auto

lemma concat_splitlines_keep: "concat (splitlines_keep text) = text"
  by (simp add: splitlines_keep_def concat_splitlines_from)

lemma section_text_push:
  "section_text (push_section sections h ls) = section_text sections @ concat ls"
  by (simp add: push_section_def section_text_def)

lemma section_text_split_loop:
  "section_text (split_loop lines sections h ls) = section_text sections @ concat ls @ concat lines"
  by (induction lines arbitrary: sections h ls)
     (simp_all add: section_text_push split: option.splits)

text \<open>
  Claim C3: for every text, the empty one included, the lines of the sections returned by
  \<open>split_into_sections\<close>, concatenated in order, are the text itself.  The splitter is a
  total function: it returns a list of sections for every text.
\<close>

theorem split_into_sections_lossless:
  "concat (concat (map snd (split_into_sections text))) = text"
  using section_text_split_loop [of "splitlines_keep text" "[]" None "[]"]
  by (simp add: split_into_sections_def section_text_def concat_splitlines_keep)

section \<open>Substrings, the disabled marker, and the mode of FaceFix\<close>

lemma startswith_iff: "startswith s p \<longleftrightarrow> (\<exists>b. s = p @ b)"
  unfolding startswith_def
  by (metis append_eq_conv_conj append_take_drop_id)

lemma contains_iff: "contains needle hay \<longleftrightarrow> (\<exists>a b. hay = a @ needle @ b)"
proof (induction hay)
  case Nil
  then show ?case by auto
next
  case (Cons c cs)
  show ?case
  proof
    assume "contains needle (c # cs)"
    then consider "startswith (c # cs) needle" | "contains needle cs" by auto
    then show "\<exists>a b. c # cs = a @ needle @ b"
    proof cases
      case 1
      then obtain b where "c # cs = needle @ b" by (auto simp: startswith_iff)
      then have "c # cs = [] @ needle @ b" by simp
      then show ?thesis by blast
    next
      case 2
      then obtain a b where "cs = a @ needle @ b" using Cons.IH by blast
      then have "c # cs = (c # a) @ needle @ b" by simp
      then show ?thesis by blast
    qed
  next
    assume "\<exists>a b. c # cs = a @ needle @ b"
    then obtain a b where ab: "c # cs = a @ needle @ b" by blast
    show "contains needle (c # cs)"
    proof (cases a)
      case Nil
      then have "startswith (c # cs) needle" using ab by (auto simp: startswith_iff)
      then show ?thesis by simp
    next
      case (Cons x a')
      then have "cs = a' @ needle @ b" using ab by simp
      then show ?thesis using Cons.IH by auto
    qed
  qed
qed

text \<open>
  Claim C8: when the text read from the file contains the literal substring DISABLED and
  disabled-file processing is off, \<open>process_file_combined\<close> returns no changes
  (\<open>has_changes\<close> false, the empty change list) and the text as it was read.
\<close>

theorem disabled_file_untouched:
  "content = a @ ''DISABLED'' @ b \<Longrightarrow>
   process_file_combined (Inr content) auto_mode manual_excludes False = (False, [], content)"
  by (simp add: process_file_combined_def contains_iff) blast

theorem disabled_file_untouched_witness:
  "''; DISABLED mod'' = ''; '' @ ''DISABLED'' @ '' mod'' \<and>
   process_file_combined (Inr ''; DISABLED mod'') True {} False = (False, [], ''; DISABLED mod'')"
  using disabled_file_untouched [of "''; DISABLED mod''" "''; ''" "'' mod''" True "{}"] by simp

text \<open>
  Claim C9: for every list of sections and every manual exclusion set, the FaceFix pass
  returns the same change list and the same text with \<open>auto_mode\<close> true and false.
\<close>

theorem face_fix_ignores_mode:
  "process_face_sections sections True manual_excludes =
   process_face_sections sections False manual_excludes"
  by (simp add: process_face_sections_def)

lemma first_pass_lines: "fst (first_pass block new_block lp) = new_block @ block"
  by (induction block arbitrary: new_block lp) (simp_all add: Let_def)

lemma next_is_correct_total: "\<exists>b. next_is_correct new_block i correct_run = Inr b"
  by (auto simp: next_is_correct_def getitem_def)

lemma process_orfix_block_total:
  "\<exists>new_block changes. process_orfix_block block section_name = Inr (new_block, changes)"
proof -
  obtain nb0 lp where fp: "first_pass block [] None = (nb0, lp)" by (cases "first_pass block [] None")
  obtain nb ch where rp: "remove_pass section_name nb0 [] [] = (nb, ch)"
    by (cases "remove_pass section_name nb0 [] []")
  show ?thesis
  proof (cases lp)
    case None
    then show ?thesis by (simp add: process_orfix_block_def fp rp)
  next
    case (Some i)
    obtain b where "next_is_correct nb i (if list_ex (contains ''NormalMap'') block then RUN_ORFIX else RUN_NNFIX) = Inr b"
      using next_is_correct_total by blast
    then show ?thesis using Some by (simp add: process_orfix_block_def fp rp Let_def)
  qed
qed

section \<open>The structure of the ORFix pass\<close>

lemma emit_block_total:
  "\<exists>processed changes. emit_block auto_mode ex cs bl = Inr (processed, changes)"
  using process_orfix_block_total [of bl cs] by (simp add: emit_block_def)

lemma flush_block_shift:
  "flush_block auto_mode ex (shift a b st) = map_sum id (shift a b) (flush_block auto_mode ex st)"
proof -
  obtain p c where "emit_block auto_mode ex (current_section st) (block_lines st) = Inr (p, c)"
    using emit_block_total by blast
  then show ?thesis by (simp add: flush_block_def shift_def)
qed

lemma flush_block_total:
  "\<exists>st'. flush_block auto_mode ex st = Inr st'"
proof -
  obtain p c where "emit_block auto_mode ex (current_section st) (block_lines st) = Inr (p, c)"
    using emit_block_total by blast
  then show ?thesis by (simp add: flush_block_def)
qed

lemma orfix_loop_shift:
  "orfix_loop auto_mode ex lines (shift a b st) =
   map_sum id (shift a b) (orfix_loop auto_mode ex lines st)"
proof (induction lines arbitrary: st)
  case Nil
  then show ?case by simp
next
  case (Cons line lines)
  show ?case
  proof (cases "is_block_start line")
    case True
    obtain st' where f: "flush_block auto_mode ex st = Inr st'" using flush_block_total by blast
    have eq: "(shift a b st')\<lparr>block_lines := [], current_section := Some (slice_1_m1 (strip line)),
                 new_lines := new_lines (shift a b st') @ [line]\<rparr>
          = shift a b (st'\<lparr>block_lines := [], current_section := Some (slice_1_m1 (strip line)),
                 new_lines := new_lines st' @ [line]\<rparr>)"
      by (simp add: shift_def)
    show ?thesis using True f Cons.IH by (simp add: flush_block_shift eq)
  next
    case False
    have c: "current_section (shift a b st) = current_section st" by (simp add: shift_def)
    have e1: "(shift a b st)\<lparr>block_lines := block_lines (shift a b st) @ [line]\<rparr>
              = shift a b (st\<lparr>block_lines := block_lines st @ [line]\<rparr>)"
      by (simp add: shift_def)
    have e2: "(shift a b st)\<lparr>new_lines := new_lines (shift a b st) @ [line]\<rparr>
              = shift a b (st\<lparr>new_lines := new_lines st @ [line]\<rparr>)"
      by (simp add: shift_def)
    show ?thesis using False Cons.IH by (simp add: c e1 e2)
  qed
qed

lemma orfix_loop_total: "\<exists>st'. orfix_loop auto_mode ex lines st = Inr st'"
proof (induction lines arbitrary: st)
  case Nil
  then show ?case by simp
next
  case (Cons line lines)
  obtain st' where f: "flush_block auto_mode ex st = Inr st'" using flush_block_total by blast
  show ?case using Cons.IH f by simp
qed

lemma orfix_loop_append:
  "orfix_loop auto_mode ex (xs @ ys) st =
     (case orfix_loop auto_mode ex xs st of Inl e \<Rightarrow> Inl e
      | Inr st' \<Rightarrow> orfix_loop auto_mode ex ys st')"
proof (induction xs arbitrary: st)
  case Nil
  then show ?case by simp
next
  case (Cons x xs)
  obtain st' where f: "flush_block auto_mode ex st = Inr st'" using flush_block_total by blast
  show ?case using Cons.IH f by simp
qed

lemma orfix_lines_finish:
  "orfix_lines auto_mode ex lines =
     (case orfix_loop auto_mode ex lines orfix_init of Inl e \<Rightarrow> Inl e
      | Inr st \<Rightarrow> finish auto_mode ex st)"
  by (simp add: orfix_lines_def finish_def split: sum.splits)

lemma finish_shift:
  "finish auto_mode ex st = Inr (c, ls) \<Longrightarrow> finish auto_mode ex (shift a b st) = Inr (b @ c, a @ ls)"
proof -
  assume fin: "finish auto_mode ex st = Inr (c, ls)"
  obtain st' where f: "flush_block auto_mode ex st = Inr st'" using flush_block_total by blast
  have cl: "c = all_changes st'" "ls = new_lines st'" using fin by (simp_all add: finish_def f)
  have "flush_block auto_mode ex (shift a b st) = Inr (shift a b st')"
    by (simp add: flush_block_shift f)
  then show ?thesis by (simp add: finish_def cl shift_def)
qed

lemma orfix_lines_at_block_start:
  assumes "is_block_start y"
  shows "\<exists>c1 o1 c2 o2.
           orfix_lines auto_mode ex xs = Inr (c1, o1) \<and>
           orfix_lines auto_mode ex (y # ys) = Inr (c2, o2) \<and>
           orfix_lines auto_mode ex (xs @ y # ys) = Inr (c1 @ c2, o1 @ o2)"
proof -
  let ?name = "Some (slice_1_m1 (strip y))"
  obtain s1 where s1: "orfix_loop auto_mode ex xs orfix_init = Inr s1"
    using orfix_loop_total by blast
  obtain s1' where s1': "flush_block auto_mode ex s1 = Inr s1'"
    using flush_block_total by blast
  define sB where "sB = \<lparr>new_lines = [y], block_lines = [], current_section = ?name,
                          all_changes = []\<rparr>"
  obtain s2 where s2: "orfix_loop auto_mode ex ys sB = Inr s2"
    using orfix_loop_total by blast
  obtain s2' where s2': "flush_block auto_mode ex s2 = Inr s2'"
    using flush_block_total by blast
  have left: "orfix_lines auto_mode ex xs = Inr (all_changes s1', new_lines s1')"
    by (simp add: orfix_lines_def s1 s1')
  have init: "flush_block auto_mode ex orfix_init = Inr orfix_init"
    by (simp add: flush_block_def orfix_init_def)
  have stepB: "orfix_loop auto_mode ex (y # ys) orfix_init = orfix_loop auto_mode ex ys sB"
    using assms by (simp add: flush_block_def sB_def orfix_init_def)
  have right: "orfix_lines auto_mode ex (y # ys) = Inr (all_changes s2', new_lines s2')"
    by (simp add: orfix_lines_def stepB s2 s2' del: orfix_loop.simps)
  have sA: "s1'\<lparr>block_lines := [], current_section := ?name, new_lines := new_lines s1' @ [y]\<rparr>
            = shift (new_lines s1') (all_changes s1') sB"
    by (simp add: shift_def sB_def)
  have stepA: "orfix_loop auto_mode ex (y # ys) s1
               = orfix_loop auto_mode ex ys (shift (new_lines s1') (all_changes s1') sB)"
    using assms by (simp add: s1' sA)
  have loopA: "orfix_loop auto_mode ex (xs @ y # ys) orfix_init
               = Inr (shift (new_lines s1') (all_changes s1') s2)"
    by (simp add: orfix_loop_append s1 stepA orfix_loop_shift s2 del: orfix_loop.simps)
  have fin2: "finish auto_mode ex s2 = Inr (all_changes s2', new_lines s2')"
    by (simp add: finish_def s2')
  have both: "orfix_lines auto_mode ex (xs @ y # ys)
              = Inr (all_changes s1' @ all_changes s2', new_lines s1' @ new_lines s2')"
    by (simp add: orfix_lines_finish loopA finish_shift [OF fin2])
  show ?thesis using left right both by blast
qed

lemma block_start_name_truthy:
  assumes "is_block_start line"
  shows "truthy (Some (slice_1_m1 (strip line)))"
proof -
  have "12 \<le> length (strip line)"
    using assms by (auto simp: is_block_start_def Let_def startswith_iff)
  then have "length (slice_1_m1 (strip line)) \<noteq> 0"
    by (simp add: slice_1_m1_def)
  then show ?thesis by (auto simp: truthy_def)
qed

lemma orfix_loop_in_block:
  assumes "\<forall>l \<in> set body. \<not> is_block_start l" and "truthy (current_section st)"
  shows "orfix_loop auto_mode ex body st = Inr (st\<lparr>block_lines := block_lines st @ body\<rparr>)"
  using assms by (induction body arbitrary: st) simp_all



lemma orfix_lines_one_block:
  assumes "is_block_start h" and "\<forall>l \<in> set body. \<not> is_block_start l"
  shows "orfix_lines auto_mode ex (h # body) =
           (if body = [] then Inr ([], [h])
            else case emit_block auto_mode ex (Some (slice_1_m1 (strip h))) body of
                   Inl e \<Rightarrow> Inl e
                 | Inr (processed, changes) \<Rightarrow> Inr (changes, h # processed))"
proof -
  let ?name = "Some (slice_1_m1 (strip h))"
  define sB where "sB = \<lparr>new_lines = [h], block_lines = [], current_section = ?name,
                          all_changes = []\<rparr>"
  have init: "flush_block auto_mode ex orfix_init = Inr orfix_init"
    by (simp add: flush_block_def orfix_init_def)
  have step: "orfix_loop auto_mode ex (h # body) orfix_init = orfix_loop auto_mode ex body sB"
    using assms(1) by (simp add: flush_block_def sB_def orfix_init_def)
  have t: "truthy (current_section sB)"
    using block_start_name_truthy [OF assms(1)] by (simp add: sB_def)
  have loop: "orfix_loop auto_mode ex body sB = Inr (sB\<lparr>block_lines := block_lines sB @ body\<rparr>)"
    by (rule orfix_loop_in_block [OF assms(2) t])
  obtain p c where e: "emit_block auto_mode ex ?name body = Inr (p, c)"
    using emit_block_total by blast
  have "orfix_lines auto_mode ex (h # body) =
          (case flush_block auto_mode ex (sB\<lparr>block_lines := block_lines sB @ body\<rparr>) of
             Inl e \<Rightarrow> Inl e
           | Inr st' \<Rightarrow> Inr (all_changes st', new_lines st'))"
    by (simp add: orfix_lines_def step loop del: orfix_loop.simps)
  then show ?thesis
    by (simp add: flush_block_def sB_def e)
qed

lemma excluded_block_unchanged:
  assumes "is_block_start h" and "\<forall>l \<in> set body. \<not> is_block_start l"
    and "should_auto_exclude_section (Some (slice_1_m1 (strip h)))"
  shows "orfix_lines auto_mode ex (h # body) = Inr ([], h # body)"
  using assms(3) by (simp add: orfix_lines_one_block [OF assms(1,2)] emit_block_def process_block_def)

lemma orfix_lines_Nil: "orfix_lines auto_mode ex [] = Inr ([], [])"
  by (simp add: orfix_lines_def orfix_init_def flush_block_def)

text \<open>
  Claim C5: in either mode and with any manual exclusion set, a block whose name (the
  header line stripped, without its first and last character) matches a structural
  auto-exclusion pattern is emitted by the ORFix pass with its header and its lines
  unchanged, and it contributes no change: the result of the pass is the result for the
  lines before the block, the block itself, and the result for the lines after it.
\<close>

theorem orfix_auto_excluded_block_unchanged:
  assumes "splitlines_keep text = pre @ (h # body) @ post"
    and "is_block_start h"
    and "\<forall>l \<in> set body. \<not> is_block_start l"
    and "post = [] \<or> is_block_start (hd post)"
    and "should_auto_exclude_section (Some (slice_1_m1 (strip h)))"
  shows "\<exists>c1 o1 c2 o2.
           orfix_lines auto_mode manual_excludes pre = Inr (c1, o1) \<and>
           orfix_lines auto_mode manual_excludes post = Inr (c2, o2) \<and>
           process_orfix_sections text auto_mode manual_excludes
             = Inr (c1 @ c2, concat (o1 @ (h # body) @ o2))"
proof -
  have blk: "orfix_lines auto_mode manual_excludes (h # body) = Inr ([], h # body)"
    by (rule excluded_block_unchanged [OF assms(2,3,5)])
  obtain c1 o1 cm om where
    p1: "orfix_lines auto_mode manual_excludes pre = Inr (c1, o1)" and
    p2: "orfix_lines auto_mode manual_excludes (h # body @ post) = Inr (cm, om)" and
    p3: "orfix_lines auto_mode manual_excludes (pre @ h # body @ post) = Inr (c1 @ cm, o1 @ om)"
    using orfix_lines_at_block_start [OF assms(2), of auto_mode manual_excludes pre "body @ post"]
    by blast
  have "\<exists>c2 o2. orfix_lines auto_mode manual_excludes post = Inr (c2, o2) \<and>
                 cm = c2 \<and> om = (h # body) @ o2"
  proof (cases post)
    case Nil
    then show ?thesis using p2 blk by (simp add: orfix_lines_Nil)
  next
    case (Cons y ys)
    then have y: "is_block_start y" using assms(4) by simp
    obtain cb ob c2 o2 where
      q1: "orfix_lines auto_mode manual_excludes (h # body) = Inr (cb, ob)" and
      q2: "orfix_lines auto_mode manual_excludes (y # ys) = Inr (c2, o2)" and
      q3: "orfix_lines auto_mode manual_excludes ((h # body) @ y # ys) = Inr (cb @ c2, ob @ o2)"
      using orfix_lines_at_block_start [OF y, of auto_mode manual_excludes "h # body" ys] by blast
    from q1 blk have "cb = []" "ob = h # body" by simp_all
    then show ?thesis using q2 q3 p2 Cons by simp
  qed
  then obtain c2 o2 where
    r: "orfix_lines auto_mode manual_excludes post = Inr (c2, o2)" "cm = c2" "om = (h # body) @ o2"
    by blast
  have "process_orfix_sections text auto_mode manual_excludes
          = Inr (c1 @ c2, concat (o1 @ (h # body) @ o2))"
    using p3 r by (simp add: process_orfix_sections_def assms(1))
  then show ?thesis using p1 r(1) by blast
qed

section \<open>The ORFix block\<close>

lemma remove_pass_eq:
  "remove_pass n ls t ch =
     (t @ filter (\<lambda>l. \<not> rmatches True RUN_LINE_PATTERN l) ls,
      ch @ map (\<lambda>l. ORFIX_REMOVE n (strip l)) (filter (rmatches True RUN_LINE_PATTERN) ls))"
  by (induction ls arbitrary: t ch) simp_all

text \<open>
  Claim C10: \<open>process_orfix_block\<close> returns for every block, without raising; and a
  directive is inserted (an \<open>ORFIX_ADD\<close> change is recorded) only when a last
  slot-assignment index was found and that index, taken before the removals, is strictly
  less than the length of the list of lines left after the removals.
\<close>

theorem orfix_block_never_raises:
  "\<exists>new_block changes.
     process_orfix_block block section_name = Inr (new_block, changes) \<and>
     ((\<exists>d. ORFIX_ADD section_name d \<in> set changes) \<longrightarrow>
        (\<exists>i. snd (first_pass block [] None) = Some i \<and>
             i < length (fst (remove_pass section_name block [] []))))"
proof -
  obtain nb0 lp where fp: "first_pass block [] None = (nb0, lp)"
    by (cases "first_pass block [] None")
  have nb0: "nb0 = block" using first_pass_lines [of block "[]" None] fp by simp
  obtain nb ch where rp: "remove_pass section_name block [] [] = (nb, ch)"
    by (cases "remove_pass section_name block [] []")
  have ch: "\<forall>c \<in> set ch. \<forall>d. c \<noteq> ORFIX_ADD section_name d"
    using rp by (auto simp: remove_pass_eq)
  show ?thesis
  proof (cases "block = []")
    case True
    then show ?thesis by (simp add: process_orfix_block_def)
  next
    case False
    show ?thesis
    proof (cases lp)
      case None
      then show ?thesis using False ch by (auto simp: process_orfix_block_def fp nb0 rp)
    next
      case (Some i)
      obtain b where b: "next_is_correct nb i
           (if list_ex (contains ''NormalMap'') block then RUN_ORFIX else RUN_NNFIX) = Inr b"
        using next_is_correct_total by blast
      show ?thesis
      proof (cases "i < length nb")
        case True
        then show ?thesis using False Some b
          by (simp add: process_orfix_block_def fp nb0 rp Let_def)
      next
        case False
        then show ?thesis using \<open>block \<noteq> []\<close> Some ch
          by (auto simp: process_orfix_block_def fp nb0 rp Let_def)
      qed
    qed
  qed
qed






section \<open>The passes at concrete inputs\<close>

text \<open>
  Claim C1 at a failing input: the trailing group of \<open>PS_T0_RE\<close> takes the line ending,
  and the line ending is appended once more, so the rewritten line ends in two line
  endings and the output text has three lines where the input has two.
\<close>

theorem face_fix_doubles_line_ending:
  "process_face_sections (split_into_sections ''[TextureOverrideFace]\<newline>ps-t0 = X\<newline>'') False {}
     = ([FACE (Some ''TextureOverrideFace'') 2 ''ps-t0 = X'' ''this = X''],
        ''[TextureOverrideFace]\<newline>this = X\<newline>\<newline>'') \<and>
   length (splitlines_keep ''[TextureOverrideFace]\<newline>ps-t0 = X\<newline>'') = 2 \<and>
   length (splitlines_keep ''[TextureOverrideFace]\<newline>this = X\<newline>\<newline>'') = 3"
  by code_simp

text \<open>
  Claim C2 at a failing input: the second application of the ORFix pass removes the
  directive the first one inserted and inserts it again, so its change list is not empty.
\<close>

theorem orfix_second_pass_reports_changes:
  "process_orfix_sections ''[CommandListA]\<newline>ps-t0 = X\<newline>'' False {}
     = Inr ([ORFIX_ADD (Some ''CommandListA'') (''run = '' @ ORFIX_PREFIX @ ''NNFix'')],
            ''[CommandListA]\<newline>ps-t0 = X\<newline>'' @ RUN_NNFIX) \<and>
   process_orfix_sections (''[CommandListA]\<newline>ps-t0 = X\<newline>'' @ RUN_NNFIX) False {}
     = Inr ([ORFIX_REMOVE (Some ''CommandListA'') (''run = '' @ ORFIX_PREFIX @ ''NNFix''),
             ORFIX_ADD (Some ''CommandListA'') (''run = '' @ ORFIX_PREFIX @ ''NNFix'')],
            ''[CommandListA]\<newline>ps-t0 = X\<newline>'' @ RUN_NNFIX)"
  by code_simp

text \<open>
  Claim C7 at a failing input: a derived-directive line before the last slot assignment
  is removed, the index found before the removal is used after it, and the directive is
  inserted behind the last line of the block, a header line with no line ending; the
  input splits into two sections, the output into one.
\<close>

theorem combined_driver_loses_section:
  "process_file_combined (Inr (''[CommandListA]\<newline>'' @ RUN_NNFIX @ ''ps-t0 = X\<newline>[B]'')) False {} False
     = (True,
        [ORFIX_REMOVE (Some ''CommandListA'') (''run = '' @ ORFIX_PREFIX @ ''NNFix''),
         ORFIX_ADD (Some ''CommandListA'') (''run = '' @ ORFIX_PREFIX @ ''NNFix'')],
        ''[CommandListA]\<newline>ps-t0 = X\<newline>[B]'' @ RUN_NNFIX) \<and>
   length (split_into_sections (''[CommandListA]\<newline>'' @ RUN_NNFIX @ ''ps-t0 = X\<newline>[B]'')) = 2 \<and>
   length (split_into_sections (''[CommandListA]\<newline>ps-t0 = X\<newline>[B]'' @ RUN_NNFIX)) = 1"
  by code_simp

text \<open>
  Claim C4 at failing inputs.  The last slot assignment is searched with a pattern that has
  no \<open>IGNORECASE\<close> flag, while the eligibility test has it: the block of the single line
  \<open>PS-T0 = X\<close> and a directive is eligible, its directive is removed and none is inserted;
  after \<open>ps-t0 = X\<close>, \<open>PS-T1 = Y\<close> the directive is put before the last slot line.  And the
  index found before the removals is used after them: with a directive before
  \<open>ps-t0 = X\<close> the new directive is put after the line that follows the slot line.
\<close>

theorem orfix_block_misplaces_directive:
  "process_block False {} (Some ''CommandListA'') [''PS-T0 = X\<newline>'', RUN_NNFIX] \<and>
   process_orfix_block [''PS-T0 = X\<newline>'', RUN_NNFIX] (Some ''CommandListA'')
     = Inr ([''PS-T0 = X\<newline>''],
            [ORFIX_REMOVE (Some ''CommandListA'') (''run = '' @ ORFIX_PREFIX @ ''NNFix'')]) \<and>
   process_block False {} (Some ''CommandListA'') [''ps-t0 = X\<newline>'', ''PS-T1 = Y\<newline>''] \<and>
   process_orfix_block [''ps-t0 = X\<newline>'', ''PS-T1 = Y\<newline>''] (Some ''CommandListA'')
     = Inr ([''ps-t0 = X\<newline>'', RUN_NNFIX, ''PS-T1 = Y\<newline>''],
            [ORFIX_ADD (Some ''CommandListA'') (''run = '' @ ORFIX_PREFIX @ ''NNFix'')]) \<and>
   process_block False {} (Some ''CommandListA'') [RUN_NNFIX, ''ps-t0 = X\<newline>'', ''y = 1\<newline>''] \<and>
   process_orfix_block [RUN_NNFIX, ''ps-t0 = X\<newline>'', ''y = 1\<newline>''] (Some ''CommandListA'')
     = Inr ([''ps-t0 = X\<newline>'', ''y = 1\<newline>'', RUN_NNFIX],
            [ORFIX_REMOVE (Some ''CommandListA'') (''run = '' @ ORFIX_PREFIX @ ''NNFix''),
             ORFIX_ADD (Some ''CommandListA'') (''run = '' @ ORFIX_PREFIX @ ''NNFix'')])"
  by code_simp


section \<open>Witnesses\<close>

theorem orfix_block_never_raises_witness:
  "\<exists>new_block changes.
     process_orfix_block [''ps-t0 = X\<newline>''] (Some ''CommandListA'') = Inr (new_block, changes) \<and>
     ((\<exists>d. ORFIX_ADD (Some ''CommandListA'') d \<in> set changes) \<longrightarrow>
        (\<exists>i. snd (first_pass [''ps-t0 = X\<newline>''] [] None) = Some i \<and>
             i < length (fst (remove_pass (Some ''CommandListA'') [''ps-t0 = X\<newline>''] [] [])))) \<and>
     (\<exists>d. ORFIX_ADD (Some ''CommandListA'') d \<in> set changes)"
proof -
  have e: "process_orfix_block [''ps-t0 = X\<newline>''] (Some ''CommandListA'')
           = Inr ([''ps-t0 = X\<newline>'', RUN_NNFIX],
                  [ORFIX_ADD (Some ''CommandListA'') (''run = '' @ ORFIX_PREFIX @ ''NNFix'')])"
    by code_simp
  from orfix_block_never_raises [of "[''ps-t0 = X\<newline>'']" "Some ''CommandListA''"]
  obtain nb ch where
    r: "process_orfix_block [''ps-t0 = X\<newline>''] (Some ''CommandListA'') = Inr (nb, ch)" and
    g: "(\<exists>d. ORFIX_ADD (Some ''CommandListA'') d \<in> set ch) \<longrightarrow>
        (\<exists>i. snd (first_pass [''ps-t0 = X\<newline>''] [] None) = Some i \<and>
             i < length (fst (remove_pass (Some ''CommandListA'') [''ps-t0 = X\<newline>''] [] [])))"
    by blast
  from r e have ch: "ch = [ORFIX_ADD (Some ''CommandListA'') (''run = '' @ ORFIX_PREFIX @ ''NNFix'')]"
    by simp
  have "\<exists>d. ORFIX_ADD (Some ''CommandListA'') d \<in> set ch"
    unfolding ch by (rule exI [of _ "''run = '' @ ORFIX_PREFIX @ ''NNFix''"]) simp
  with r g show ?thesis by blast
qed

lemma w5_lines:
  "splitlines_keep ''x\<newline>[CommandListLoadA2]\<newline>ps-t0 = X\<newline>[CommandListB]\<newline>ps-t0 = Y\<newline>''
   = [''x\<newline>''] @ (''[CommandListLoadA2]\<newline>'' # [''ps-t0 = X\<newline>''])
     @ [''[CommandListB]\<newline>'', ''ps-t0 = Y\<newline>'']"
  by code_simp

lemma w5_start: "is_block_start ''[CommandListLoadA2]\<newline>''"
  by code_simp

lemma w5_body: "\<forall>l \<in> set [''ps-t0 = X\<newline>'']. \<not> is_block_start l"
  by code_simp

lemma w5_post:
  "[''[CommandListB]\<newline>'', ''ps-t0 = Y\<newline>''] = [] \<or>
   is_block_start (hd [''[CommandListB]\<newline>'', ''ps-t0 = Y\<newline>''])"
  by code_simp

lemma w5_excl: "should_auto_exclude_section (Some (slice_1_m1 (strip ''[CommandListLoadA2]\<newline>'')))"
  by code_simp

theorem orfix_auto_excluded_block_unchanged_witness:
  "is_block_start ''[CommandListLoadA2]\<newline>'' \<and>
   should_auto_exclude_section (Some (slice_1_m1 (strip ''[CommandListLoadA2]\<newline>''))) \<and>
   (\<exists>c1 o1 c2 o2.
      orfix_lines True {''[CommandListLoadA2]''} [''x\<newline>''] = Inr (c1, o1) \<and>
      orfix_lines True {''[CommandListLoadA2]''} [''[CommandListB]\<newline>'', ''ps-t0 = Y\<newline>'']
        = Inr (c2, o2) \<and>
      process_orfix_sections
        ''x\<newline>[CommandListLoadA2]\<newline>ps-t0 = X\<newline>[CommandListB]\<newline>ps-t0 = Y\<newline>''
        True {''[CommandListLoadA2]''}
        = Inr (c1 @ c2,
               concat (o1 @ (''[CommandListLoadA2]\<newline>'' # [''ps-t0 = X\<newline>'']) @ o2)))"
  using w5_start w5_excl
    orfix_auto_excluded_block_unchanged [OF w5_lines w5_start w5_body w5_post w5_excl,
      of True "{''[CommandListLoadA2]''}"]
  by (intro conjI)











end
